theory Spec2Isabelle
  imports Main
begin

section \<open>Data model\<close>

text \<open>
  The component of \<^verbatim>\<open>src/App.js\<close> keeps event objects in two React state arrays,
  \<^verbatim>\<open>savedEvents\<close> and \<^verbatim>\<open>historyEvents\<close>. A search result carries six properties; saving
  adds five annotation properties. Strings are lists of code units below 256. A property
  that may be absent, \<^verbatim>\<open>null\<close> or \<^verbatim>\<open>undefined\<close> is an option; \<^verbatim>\<open>reminder\<close> is a whole
  number of milliseconds (the select of the saved tab stores \<^verbatim>\<open>parseInt(value, 10)\<close>) or
  \<^verbatim>\<open>null\<close>.
\<close>

record candidate =
  titulo :: string
  fecha :: string
  ubicacion :: string
  tipo :: "string option"
  descripcion :: string
  fuente :: string

record event = candidate +
  notas :: string
  estado :: string
  contactos :: "string list"
  reminder :: "int option"
  category :: string

text \<open>
  A pending timeout: the delay handed to \<^verbatim>\<open>setTimeout\<close> and the text its callback passes
  to \<^verbatim>\<open>alert\<close>. When the host fires it is outside the model.
\<close>

record timer =
  delay :: int
  message :: string

text \<open>
  The state of the mounted component. \<open>savedRev\<close> stands for the identity of the
  \<^verbatim>\<open>savedEvents\<close> array: every call of the setter stores a fresh array, and React re-runs
  the effect whose dependency list is \<^verbatim>\<open>[savedEvents]\<close> exactly when that identity changed.
  \<open>timers\<close> are the timeouts armed by the last run of that effect, \<open>effectTime\<close> the
  value \<^verbatim>\<open>Date.now()\<close> returned in that run, \<open>alerts\<close> the messages shown by the import
  handler, oldest first.
\<close>

record app =
  savedEvents :: "event list"
  historyEvents :: "event list"
  savedRev :: nat
  alerts :: "string list"
  timers :: "timer list"
  effectTime :: int

section \<open>Agenda handlers\<close>

text \<open>
  Every handler reads \<^verbatim>\<open>savedEvents\<close> and \<^verbatim>\<open>historyEvents\<close> from the render it was created
  in; the model runs one handler per render, so these are the current arrays.
\<close>

definition setSavedEvents :: "event list \<Rightarrow> app \<Rightarrow> app" where
  "setSavedEvents v st = st\<lparr>savedEvents := v, savedRev := Suc (savedRev st)\<rparr>"

definition setHistoryEvents :: "event list \<Rightarrow> app \<Rightarrow> app" where
  "setHistoryEvents v st = st\<lparr>historyEvents := v\<rparr>"

text \<open>\<^verbatim>\<open>x || ''\<close> for a property that is a string when present.\<close>

definition or_empty :: "string option \<Rightarrow> string" where
  "or_empty x = (case x of None \<Rightarrow> [] | Some s \<Rightarrow> (if s = [] then [] else s))"

text \<open>
  The object literal of \<^verbatim>\<open>saveEvent\<close>: the candidate's properties spread, then the
  five annotation properties.
\<close>

definition blank_annotations :: "candidate \<Rightarrow> event" where
  "blank_annotations ev =
     \<lparr>titulo = titulo ev, fecha = fecha ev, ubicacion = ubicacion ev, tipo = tipo ev,
      descripcion = descripcion ev, fuente = fuente ev,
      notas = [], estado = [], contactos = [], reminder = None,
      category = or_empty (tipo ev)\<rparr>"

definition saveEvent :: "candidate \<Rightarrow> app \<Rightarrow> app" where
  "saveEvent ev st =
     (if find (\<lambda>e. titulo e = titulo ev) (savedEvents st) = None
      then setSavedEvents (savedEvents st @ [blank_annotations ev]) st
      else st)"

text \<open>
  \<^verbatim>\<open>updateSavedEvent(titulo, field, value)\<close> writes \<^verbatim>\<open>{ ...e, [field]: value }\<close>; a
  \<open>field_value\<close> is the property name together with a value of the property's type.
\<close>

datatype field_value =
    Set_titulo string
  | Set_fecha string
  | Set_ubicacion string
  | Set_tipo "string option"
  | Set_descripcion string
  | Set_fuente string
  | Set_notas string
  | Set_estado string
  | Set_contactos "string list"
  | Set_reminder "int option"
  | Set_category string

fun with_field :: "field_value \<Rightarrow> event \<Rightarrow> event" where
  "with_field (Set_titulo v) e = e\<lparr>titulo := v\<rparr>"
| "with_field (Set_fecha v) e = e\<lparr>fecha := v\<rparr>"
| "with_field (Set_ubicacion v) e = e\<lparr>ubicacion := v\<rparr>"
| "with_field (Set_tipo v) e = e\<lparr>tipo := v\<rparr>"
| "with_field (Set_descripcion v) e = e\<lparr>descripcion := v\<rparr>"
| "with_field (Set_fuente v) e = e\<lparr>fuente := v\<rparr>"
| "with_field (Set_notas v) e = e\<lparr>notas := v\<rparr>"
| "with_field (Set_estado v) e = e\<lparr>estado := v\<rparr>"
| "with_field (Set_contactos v) e = e\<lparr>contactos := v\<rparr>"
| "with_field (Set_reminder v) e = e\<lparr>reminder := v\<rparr>"
| "with_field (Set_category v) e = e\<lparr>category := v\<rparr>"

definition updateSavedEvent :: "string \<Rightarrow> field_value \<Rightarrow> app \<Rightarrow> app" where
  "updateSavedEvent t fv st =
     setSavedEvents (map (\<lambda>e. if titulo e = t then with_field fv e else e) (savedEvents st)) st"

definition removeEvent :: "string \<Rightarrow> app \<Rightarrow> app" where
  "removeEvent t st = setSavedEvents (filter (\<lambda>e. titulo e \<noteq> t) (savedEvents st)) st"

definition markAsAttended :: "string \<Rightarrow> app \<Rightarrow> app" where
  "markAsAttended t st =
     (case find (\<lambda>e. titulo e = t) (savedEvents st) of
        Some ev \<Rightarrow>
          setHistoryEvents (historyEvents st @ [ev\<lparr>estado := ''asistido''\<rparr>])
            (setSavedEvents (filter (\<lambda>e. titulo e \<noteq> t) (savedEvents st)) st)
      | None \<Rightarrow> st)"

text \<open>How many saved events carry a title.\<close>

definition saved_count :: "string \<Rightarrow> app \<Rightarrow> nat" where
  "saved_count t st = length (filter (\<lambda>e. titulo e = t) (savedEvents st))"

text \<open>
  The component as mounted: both arrays empty (\<^verbatim>\<open>useState([])\<close>), the reminder effect
  run once at time \<open>now\<close> over no event.
\<close>

definition mounted :: "int \<Rightarrow> app" where
  "mounted now =
     \<lparr>savedEvents = [], historyEvents = [], savedRev = 0, alerts = [], timers = [],
      effectTime = now\<rparr>"

text \<open>The search result of the scenario in the specification, used in the examples.\<close>

definition beach_party :: candidate where
  "beach_party =
     \<lparr>titulo = ''Beach Party'', fecha = ''12/07/2025'', ubicacion = ''Grace Bay'',
      tipo = Some ''social'', descripcion = ''...'', fuente = ''...''\<rparr>"

section \<open>Date parser\<close>

text \<open>
  The numbers of this program are time values, differences of time values and reminder
  lead times: whole numbers, or \<^verbatim>\<open>NaN\<close>. Time values lie within \<open>8.64 \<times> 10\<^sup>1\<^sup>5\<close> of zero,
  where the arithmetic of doubles on whole numbers is exact. A \<^verbatim>\<open>Date\<close> object is its
  time value; an object is truthy also when that value is \<^verbatim>\<open>NaN\<close> (an invalid date).
\<close>

datatype num = NaN | Num int

datatype date = Date (getTime: num)

text \<open>The class \<^verbatim>\<open>\s\<close> of regular expressions, among the code units below 256.\<close>

definition is_space :: "char \<Rightarrow> bool" where
  "is_space c =
     (c \<in> set [CHR 0x09, CHR 0x0A, CHR 0x0B, CHR 0x0C, CHR 0x0D, CHR 0x20, CHR 0xA0])"

text \<open>
  \<^verbatim>\<open>/\s*-\s*/\<close> matches at the start of a string: white space, as much as there is, then
  a hyphen.
\<close>

definition separator_at :: "string \<Rightarrow> bool" where
  "separator_at s = (case dropWhile is_space s of [] \<Rightarrow> False | c # _ \<Rightarrow> c = CHR ''-'')"

text \<open>
  \<^verbatim>\<open>s.split(/\s*-\s*/)[0]\<close>: \<^verbatim>\<open>split\<close> tries the expression at each position from the
  left; the first piece ends where it first matches, or is the whole string.
\<close>

fun first_part :: "string \<Rightarrow> string" where
  "first_part [] = []"
| "first_part (c # cs) = (if separator_at (c # cs) then [] else c # first_part cs)"

text \<open>\<^verbatim>\<open>s.split('/')\<close> for a one-character separator: never an empty array.\<close>

fun split_on :: "char \<Rightarrow> string \<Rightarrow> string list" where
  "split_on sep [] = [[]]"
| "split_on sep (c # cs) =
     (if c = sep then [] # split_on sep cs
      else (case split_on sep cs of [] \<Rightarrow> [[c]] | p # ps \<Rightarrow> (c # p) # ps))"

text \<open>An array element read by destructuring: \<^verbatim>\<open>undefined\<close> past the end.\<close>

definition element :: "'a list \<Rightarrow> nat \<Rightarrow> 'a option" where
  "element xs i = (if i < length xs then Some (xs ! i) else None)"

text \<open>
  \<^verbatim>\<open>Date.parse\<close> on the date-only form \<^verbatim>\<open>YYYY-MM-DD\<close> of the ECMAScript date-time string
  format, which is read as UTC: \<open>DayFromYear\<close>, \<open>InLeapYear\<close> and \<open>MakeDay\<close> are the
  abstract operations of the language specification, months counted from 1 here.
\<close>

definition is_digit :: "char \<Rightarrow> bool" where
  "is_digit c = (c \<in> set ''0123456789'')"

definition digit_value :: "char \<Rightarrow> int" where
  "digit_value c = int (of_char c) - 48"

definition digits_value :: "string \<Rightarrow> int" where
  "digits_value s = foldl (\<lambda>a c. 10 * a + digit_value c) 0 s"

definition InLeapYear :: "int \<Rightarrow> bool" where
  "InLeapYear y = (y mod 4 = 0 \<and> (y mod 100 \<noteq> 0 \<or> y mod 400 = 0))"

definition DayFromYear :: "int \<Rightarrow> int" where
  "DayFromYear y =
     365 * (y - 1970) + (y - 1969) div 4 - (y - 1901) div 100 + (y - 1601) div 400"

definition DaysInMonth :: "int \<Rightarrow> int \<Rightarrow> int" where
  "DaysInMonth y m =
     (if m = 2 then (if InLeapYear y then 29 else 28)
      else if m = 4 \<or> m = 6 \<or> m = 9 \<or> m = 11 then 30 else 31)"

definition days_before_month :: "int \<Rightarrow> int \<Rightarrow> int" where
  "days_before_month y m = sum_list (map (DaysInMonth y) [1..m - 1])"

definition MakeDay :: "int \<Rightarrow> int \<Rightarrow> int \<Rightarrow> int" where
  "MakeDay y m d = DayFromYear y + days_before_month y m + (d - 1)"

definition msPerDay :: int where
  "msPerDay = 86400000"

definition valid_ymd :: "string \<Rightarrow> string \<Rightarrow> string \<Rightarrow> bool" where
  "valid_ymd yyyy mm dd =
     (length yyyy = 4 \<and> length mm = 2 \<and> length dd = 2 \<and>
      list_all is_digit yyyy \<and> list_all is_digit mm \<and> list_all is_digit dd \<and>
      1 \<le> digits_value mm \<and> digits_value mm \<le> 12 \<and>
      1 \<le> digits_value dd \<and> digits_value dd \<le> DaysInMonth (digits_value yyyy) (digits_value mm))"

definition utc_midnight :: "string \<Rightarrow> string \<Rightarrow> string \<Rightarrow> int" where
  "utc_midnight yyyy mm dd =
     MakeDay (digits_value yyyy) (digits_value mm) (digits_value dd) * msPerDay"

definition iso_date :: "string \<Rightarrow> int option" where
  "iso_date s =
     (if length s = 10 \<and> s ! 4 = CHR ''-'' \<and> s ! 7 = CHR ''-'' \<and>
         valid_ymd (take 4 s) (take 2 (drop 5 s)) (drop 8 s)
      then Some (utc_midnight (take 4 s) (take 2 (drop 5 s)) (drop 8 s))
      else None)"

text \<open>
  For every other string the language specification leaves \<^verbatim>\<open>Date.parse\<close> to the
  implementation (other forms of the format, element values out of range, fallback
  formats); \<open>impl\<close> is the engine's answer there.
\<close>

definition Date_parse :: "(string \<Rightarrow> num) \<Rightarrow> string \<Rightarrow> num" where
  "Date_parse impl s = (case iso_date s of Some t \<Rightarrow> Num t | None \<Rightarrow> impl s)"

definition parseDate :: "(string \<Rightarrow> num) \<Rightarrow> string \<Rightarrow> date option" where
  "parseDate impl dateStr =
     (if dateStr = [] then None
      else
        (let part = first_part dateStr;
             fields = split_on (CHR ''/'') part
         in case (element fields 0, element fields 1, element fields 2) of
              (Some day, Some month, Some year) \<Rightarrow>
                if day = [] \<or> month = [] \<or> year = [] then None
                else Some (Date (Date_parse impl (year @ ''-'' @ month @ ''-'' @ day)))
            | _ \<Rightarrow> None))"

text \<open>
  The grammar of the specification, in its words: a date is two digits, a slash, two
  digits, a slash and four digits; a range is a date, optional white space, a hyphen,
  optional white space and a date.
\<close>

definition dd_mm_yyyy :: "string \<Rightarrow> bool" where
  "dd_mm_yyyy s =
     (length s = 10 \<and> list_all is_digit (take 2 s) \<and> s ! 2 = CHR ''/'' \<and>
      list_all is_digit (take 2 (drop 3 s)) \<and> s ! 5 = CHR ''/'' \<and>
      list_all is_digit (drop 6 s))"

definition date_or_range :: "string \<Rightarrow> bool" where
  "date_or_range s =
     (dd_mm_yyyy s \<or>
      (dd_mm_yyyy (take 10 s) \<and>
       (case dropWhile is_space (drop 10 s) of
          [] \<Rightarrow> False
        | c # r \<Rightarrow> c = CHR ''-'' \<and> dd_mm_yyyy (dropWhile is_space r))))"

text \<open>
  The start of a date text in words: the text before its first hyphen without the white
  space that ends it, and the whole text when it has no hyphen.
\<close>

definition text_before_hyphen :: "string \<Rightarrow> string" where
  "text_before_hyphen s =
     (if CHR ''-'' \<in> set s
      then rev (dropWhile is_space (rev (takeWhile (\<lambda>c. c \<noteq> CHR ''-'') s)))
      else s)"

text \<open>An engine that recognises nothing beyond the date-only form, for the examples.\<close>

definition strict_engine :: "string \<Rightarrow> num" where
  "strict_engine s = NaN"

section \<open>Reminder effect\<close>

text \<open>Subtraction and the test \<^verbatim>\<open>> 0\<close> on numbers: \<^verbatim>\<open>NaN\<close> spreads, and is not positive.\<close>

fun sub :: "num \<Rightarrow> num \<Rightarrow> num" where
  "sub (Num a) (Num b) = Num (a - b)"
| "sub _ _ = NaN"

fun positive :: "num \<Rightarrow> bool" where
  "positive (Num d) = (0 < d)"
| "positive NaN = False"

text \<open>\<^verbatim>\<open>new Date(value)\<close> for a number keeps a time value only within the range of dates.\<close>

fun TimeClip :: "num \<Rightarrow> num" where
  "TimeClip (Num t) = (if \<bar>t\<bar> \<le> 8640000000000000 then Num t else NaN)"
| "TimeClip NaN = NaN"

text \<open>The text of the alert a reminder shows.\<close>

definition reminder_message :: "event \<Rightarrow> string" where
  "reminder_message e =
     ''Recordatorio: el evento '' @ [CHR 0x22] @ titulo e @ [CHR 0x22] @
     '' ser'' @ [CHR 0xE1] @ '' el '' @ fecha e"

text \<open>
  The callback of \<^verbatim>\<open>savedEvents.forEach\<close> in the effect, with the array \<^verbatim>\<open>timers\<close> it
  pushes to. \<^verbatim>\<open>!event.reminder\<close> holds for \<^verbatim>\<open>null\<close> and for \<open>0\<close>; a \<open>Date\<close> object is truthy
  whatever its time value.
\<close>

definition schedule :: "(string \<Rightarrow> num) \<Rightarrow> int \<Rightarrow> timer list \<Rightarrow> event \<Rightarrow> timer list" where
  "schedule impl now armed e =
     (case reminder e of
        None \<Rightarrow> armed
      | Some r \<Rightarrow>
          if r = 0 then armed
          else
            (case parseDate impl (fecha e) of
               None \<Rightarrow> armed
             | Some eventDate \<Rightarrow>
                 (let remindAt = Date (TimeClip (sub (getTime eventDate) (Num r)));
                      delay = sub (getTime remindAt) (Num now)
                  in if positive delay
                     then armed @ [\<lparr>delay = (case delay of Num d \<Rightarrow> d | NaN \<Rightarrow> 0),
                                    message = reminder_message e\<rparr>]
                     else armed)))"

definition reminderEffect :: "(string \<Rightarrow> num) \<Rightarrow> int \<Rightarrow> event list \<Rightarrow> timer list" where
  "reminderEffect impl now saved = foldl (schedule impl now) [] saved"





section \<open>Import\<close>

text \<open>
  What \<^verbatim>\<open>JSON.parse\<close> makes of the text of the chosen file: a syntax error, or a value.
  Of a value the handler reads the properties \<^verbatim>\<open>savedEvents\<close> and \<^verbatim>\<open>historyEvents\<close>:
  \<^verbatim>\<open>null\<close> has none and reading one throws; a number, string, boolean or array has them
  undefined; an object has each absent (or falsy) or an array of events.
\<close>

datatype json = JNull | JOther | JObject "event list option" "event list option"

datatype upload = Malformed | Parsed json

definition import_error_message :: string where
  "import_error_message =
     ''Error al importar el archivo. Aseg'' @ [CHR 0xFA] @
     ''rate de seleccionar un JSON v'' @ [CHR 0xE1] @ ''lido.''"

definition alert :: "string \<Rightarrow> app \<Rightarrow> app" where
  "alert msg st = st\<lparr>alerts := alerts st @ [msg]\<rparr>"

text \<open>
  \<^verbatim>\<open>reader.onload\<close>: the \<^verbatim>\<open>try\<close> block, whose \<^verbatim>\<open>catch\<close> shows the alert. The setters
  are called with functions of the previous array.
\<close>

definition onload :: "upload \<Rightarrow> app \<Rightarrow> app" where
  "onload u st =
     (case u of
        Malformed \<Rightarrow> alert import_error_message st
      | Parsed JNull \<Rightarrow> alert import_error_message st
      | Parsed JOther \<Rightarrow> st
      | Parsed (JObject saved history) \<Rightarrow>
          (let st1 = (case saved of
                        None \<Rightarrow> st
                      | Some evs \<Rightarrow> setSavedEvents (savedEvents st @ evs) st)
           in case history of
                None \<Rightarrow> st1
              | Some evs \<Rightarrow> setHistoryEvents (historyEvents st1 @ evs) st1))"

text \<open>\<^verbatim>\<open>importAgenda\<close>: nothing happens when no file was chosen.\<close>

definition importAgenda :: "upload option \<Rightarrow> app \<Rightarrow> app" where
  "importAgenda file st = (case file of None \<Rightarrow> st | Some u \<Rightarrow> onload u st)"

text \<open>The entries of a property of the snapshot: none when the property is absent.\<close>

definition entries :: "event list option \<Rightarrow> event list" where
  "entries x = (case x of None \<Rightarrow> [] | Some evs \<Rightarrow> evs)"

section \<open>Sessions\<close>

text \<open>
  One user action, then the render that follows it at time \<open>now\<close>: when the identity of
  \<^verbatim>\<open>savedEvents\<close> changed, React runs the cleanup of the reminder effect, which clears every
  timer of the last run, and runs the effect again.
\<close>

datatype action =
    Save candidate
  | Update string field_value
  | Remove string
  | Promote string
  | Import "upload option"

fun handler :: "action \<Rightarrow> app \<Rightarrow> app" where
  "handler (Save ev) st = saveEvent ev st"
| "handler (Update t fv) st = updateSavedEvent t fv st"
| "handler (Remove t) st = removeEvent t st"
| "handler (Promote t) st = markAsAttended t st"
| "handler (Import file) st = importAgenda file st"

definition step :: "(string \<Rightarrow> num) \<Rightarrow> app \<Rightarrow> int \<times> action \<Rightarrow> app" where
  "step impl st x =
     (let st' = handler (snd x) st
      in if savedRev st' \<noteq> savedRev st
         then st'\<lparr>timers := reminderEffect impl (fst x) (savedEvents st'), effectTime := fst x\<rparr>
         else st')"

definition run :: "(string \<Rightarrow> num) \<Rightarrow> app \<Rightarrow> (int \<times> action) list \<Rightarrow> app" where
  "run impl st xs = foldl (step impl) st xs"


text \<open>No title is both among the saved events and in the history.\<close>

definition disjoint_titles :: "app \<Rightarrow> bool" where
  "disjoint_titles st =
     (set (map titulo (savedEvents st)) \<inter> set (map titulo (historyEvents st)) = {})"

section \<open>Calendar\<close>

text \<open>
  \<^verbatim>\<open>groupEventsByDate\<close> fills an object literal \<^verbatim>\<open>{}\<close>, here the list of its own
  properties in the order of their creation. \<^verbatim>\<open>grouped[dateKey]\<close> also finds what
  \<^verbatim>\<open>Object.prototype\<close> supplies: for such a key the value is truthy, no array is stored,
  and the call of \<^verbatim>\<open>push\<close> on it throws a \<^verbatim>\<open>TypeError\<close>.
\<close>

datatype error = TypeError

definition Object_prototype_keys :: "string list" where
  "Object_prototype_keys =
     [''constructor'', ''__defineGetter__'', ''__defineSetter__'', ''hasOwnProperty'',
      ''__lookupGetter__'', ''__lookupSetter__'', ''isPrototypeOf'', ''propertyIsEnumerable'',
      ''toString'', ''valueOf'', ''__proto__'', ''toLocaleString'']"

type_synonym grouped = "(string \<times> event list) list"

text \<open>The callback of \<^verbatim>\<open>eventList.forEach\<close>.\<close>

definition add_to_group :: "grouped \<Rightarrow> event \<Rightarrow> error + grouped" where
  "add_to_group grouped e =
     (let dateKey = first_part (fecha e)
      in if dateKey \<in> set (map fst grouped)
         then Inr (map (\<lambda>(k, es). if k = dateKey then (k, es @ [e]) else (k, es)) grouped)
         else if dateKey \<in> set Object_prototype_keys then Inl TypeError
         else Inr (grouped @ [(dateKey, [e])]))"

fun group_from :: "grouped \<Rightarrow> event list \<Rightarrow> error + grouped" where
  "group_from grouped [] = Inr grouped"
| "group_from grouped (e # es) =
     (case add_to_group grouped e of Inl err \<Rightarrow> Inl err | Inr g \<Rightarrow> group_from g es)"

definition groupEventsByDate :: "event list \<Rightarrow> error + grouped" where
  "groupEventsByDate eventList = group_from [] eventList"

text \<open>
  \<^verbatim>\<open>Object.keys\<close> lists the keys that are array indices first (canonical numerals below
  \<open>2\<^sup>3\<^sup>2 - 1\<close>), in ascending numeric order, then the other keys in the order of their
  creation.
\<close>

definition is_array_index :: "string \<Rightarrow> bool" where
  "is_array_index k =
     (k \<noteq> [] \<and> list_all is_digit k \<and> (k = ''0'' \<or> hd k \<noteq> CHR ''0'') \<and>
      digits_value k < 4294967295)"

definition Object_keys :: "grouped \<Rightarrow> string list" where
  "Object_keys grouped =
     (let names = map fst grouped
      in sort_key digits_value (filter is_array_index names) @
         filter (\<lambda>k. \<not> is_array_index k) names)"

text \<open>
  The comparator of the calendar tab, \<^verbatim>\<open>(da || 0) - (db || 0)\<close>: \<open>sort_value\<close> is
  \<^verbatim>\<open>da || 0\<close> as a number, \<open>0\<close> for \<^verbatim>\<open>null\<close> and the time value for a \<open>Date\<close>.
\<close>

definition sort_value :: "(string \<Rightarrow> num) \<Rightarrow> string \<Rightarrow> num" where
  "sort_value impl k = (case parseDate impl k of None \<Rightarrow> Num 0 | Some d \<Rightarrow> getTime d)"

definition compare_dates :: "(string \<Rightarrow> num) \<Rightarrow> string \<Rightarrow> string \<Rightarrow> num" where
  "compare_dates impl a b = sub (sort_value impl a) (sort_value impl b)"

text \<open>
  \<^verbatim>\<open>Array.prototype.sort\<close> is stable: with a consistent comparator its result is the one
  of inserting each element, from the last to the first, before the first element that
  is not smaller. A comparator that returns \<^verbatim>\<open>NaN\<close> is not consistent and the order is
  then left to the implementation: \<open>engine\<close> is its answer.
\<close>

fun insert_before :: "('a \<Rightarrow> 'a \<Rightarrow> num) \<Rightarrow> 'a \<Rightarrow> 'a list \<Rightarrow> 'a list" where
  "insert_before cmp x [] = [x]"
| "insert_before cmp x (y # ys) =
     (if positive (cmp x y) then y # insert_before cmp x ys else x # y # ys)"

definition stable_sort :: "('a \<Rightarrow> 'a \<Rightarrow> num) \<Rightarrow> 'a list \<Rightarrow> 'a list" where
  "stable_sort cmp xs = foldr (insert_before cmp) xs []"

definition sort_dates ::
  "(string \<Rightarrow> num) \<Rightarrow> (string list \<Rightarrow> string list) \<Rightarrow> string list \<Rightarrow> string list" where
  "sort_dates impl engine keys =
     (if list_all (\<lambda>k. sort_value impl k \<noteq> NaN) keys
      then stable_sort (compare_dates impl) keys
      else engine keys)"

text \<open>The \<^verbatim>\<open>dates\<close> of the calendar tab.\<close>

definition calendar_dates ::
  "(string \<Rightarrow> num) \<Rightarrow> (string list \<Rightarrow> string list) \<Rightarrow> event list \<Rightarrow> error + string list" where
  "calendar_dates impl engine saved =
     (case groupEventsByDate saved of
        Inl err \<Rightarrow> Inl err
      | Inr grouped \<Rightarrow> Inr (sort_dates impl engine (Object_keys grouped)))"

text \<open>
  Encounter order: the elements of a list in the order of their first occurrence, those
  already seen left out.
\<close>

fun first_seen :: "'a list \<Rightarrow> 'a list \<Rightarrow> 'a list" where
  "first_seen seen [] = []"
| "first_seen seen (x # xs) =
     (if x \<in> set seen then first_seen seen xs else x # first_seen (seen @ [x]) xs)"

text \<open>
  The value of a key in words, from the date parser alone: the time value of its date,
  and \<open>0\<close>, the epoch, for a key that does not parse or parses to an invalid date.
\<close>

definition epoch_ms :: "(string \<Rightarrow> num) \<Rightarrow> string \<Rightarrow> int" where
  "epoch_ms impl k =
     (case parseDate impl k of
        None \<Rightarrow> 0
      | Some d \<Rightarrow> (case getTime d of Num t \<Rightarrow> t | NaN \<Rightarrow> 0))"

text \<open>The group keys in encounter order: the start of each date text, once.\<close>

definition date_keys :: "event list \<Rightarrow> string list" where
  "date_keys saved = first_seen [] (map (\<lambda>e. text_before_hyphen (fecha e)) saved)"

section \<open>Examples\<close>

text \<open>The scenario's event saved and then marked as attended.\<close>

definition attended_beach_party :: app where
  "attended_beach_party = markAsAttended ''Beach Party'' (saveEvent beach_party (mounted 0))"

text \<open>
  Two saved events of one title that differ in their notes, as an import can leave them.
\<close>

definition two_beach_parties :: app where
  "two_beach_parties =
     (mounted 0)\<lparr>savedEvents :=
        [(blank_annotations beach_party)\<lparr>notas := ''first''\<rparr>,
         (blank_annotations beach_party)\<lparr>notas := ''second''\<rparr>]\<rparr>"



text \<open>A second search result, with a date text outside the grammar.\<close>

definition fish_fry :: candidate where
  "fish_fry =
     \<lparr>titulo = ''Fish Fry'', fecha = ''Every Thursday'', ubicacion = ''Bight Park'',
      tipo = None, descripcion = ''...'', fuente = ''...''\<rparr>"

text \<open>The agenda exported after the scenario, as a snapshot to import.\<close>

definition exported_snapshot :: json where
  "exported_snapshot =
     JObject (Some [(blank_annotations beach_party)\<lparr>notas := ''bring sunscreen''\<rparr>])
       (Some [(blank_annotations fish_fry)\<lparr>estado := ''asistido''\<rparr>])"

text \<open>An engine that leaves the keys as they are when the comparator is not consistent.\<close>

definition unsorted :: "string list \<Rightarrow> string list" where
  "unsorted keys = keys"

text \<open>
  Saved events for the calendar: two with a year alone as date text, the scenario's
  event, the weekly one, and one dated before 1970.
\<close>

definition calendar_example :: "event list" where
  "calendar_example =
     [(blank_annotations fish_fry)\<lparr>fecha := ''2026''\<rparr>,
      blank_annotations beach_party,
      blank_annotations fish_fry,
      (blank_annotations fish_fry)\<lparr>fecha := ''2025''\<rparr>,
      (blank_annotations beach_party)\<lparr>fecha := ''20/07/1969 - 21/07/1969''\<rparr>]"

section \<open>Properties of the handlers\<close>

lemma find_None_titulo:
  "(find (\<lambda>e. titulo e = t) xs = None) = (t \<notin> titulo ` set xs)"
  by (induction xs) auto



lemma find_filter_titulo:
  "find (\<lambda>e. titulo e = t) xs =
     (case filter (\<lambda>e. titulo e = t) xs of [] \<Rightarrow> None | x # _ \<Rightarrow> Some x)"
  by (induction xs) auto

lemma find_Some_titulo:
  "find (\<lambda>e. titulo e = t) xs = Some ev \<Longrightarrow> titulo ev = t \<and> ev \<in> set xs"
  by (induction xs) (auto split: if_splits)

lemma markAsAttended_found:
  "find (\<lambda>e. titulo e = t) (savedEvents st) = Some ev \<Longrightarrow>
   savedEvents (markAsAttended t st) = filter (\<lambda>e. titulo e \<noteq> t) (savedEvents st) \<and>
   historyEvents (markAsAttended t st) = historyEvents st @ [ev\<lparr>estado := ''asistido''\<rparr>]"
  by (simp add: markAsAttended_def setSavedEvents_def setHistoryEvents_def)

lemma markAsAttended_absent:
  "t \<notin> titulo ` set (savedEvents st) \<Longrightarrow> markAsAttended t st = st"
  by (simp add: markAsAttended_def find_None_titulo [symmetric])

text \<open>
  C5. When a saved event has the title, \<open>markAsAttended\<close> leaves no saved event with
  that title and appends to the history exactly one entry, the first saved event of that
  title with \<open>estado\<close> set to \<open>asistido\<close>; a second call on the same title returns the
  state unchanged, so the history gets no second entry.
\<close>

theorem markAsAttended_once:
  "t \<in> titulo ` set (savedEvents st) \<Longrightarrow>
   (\<exists>ev. find (\<lambda>e. titulo e = t) (savedEvents st) = Some ev \<and> titulo ev = t \<and>
      historyEvents (markAsAttended t st) = historyEvents st @ [ev\<lparr>estado := ''asistido''\<rparr>]) \<and>
   savedEvents (markAsAttended t st) = filter (\<lambda>e. titulo e \<noteq> t) (savedEvents st) \<and>
   t \<notin> titulo ` set (savedEvents (markAsAttended t st)) \<and>
   length (historyEvents (markAsAttended t st)) = Suc (length (historyEvents st)) \<and>
   estado (last (historyEvents (markAsAttended t st))) = ''asistido'' \<and>
   markAsAttended t (markAsAttended t st) = markAsAttended t st"
proof -
  assume "t \<in> titulo ` set (savedEvents st)"
  then obtain ev where ev: "find (\<lambda>e. titulo e = t) (savedEvents st) = Some ev"
    using find_None_titulo [of t "savedEvents st"]
    by (cases "find (\<lambda>e. titulo e = t) (savedEvents st)") auto
  note found = markAsAttended_found [OF ev]
  have first: "\<exists>ev. find (\<lambda>e. titulo e = t) (savedEvents st) = Some ev \<and> titulo ev = t \<and>
      historyEvents (markAsAttended t st) = historyEvents st @ [ev\<lparr>estado := ''asistido''\<rparr>]"
    using ev found find_Some_titulo [OF ev] by simp
  have gone: "t \<notin> titulo ` set (savedEvents (markAsAttended t st))"
    using found by auto
  have again: "markAsAttended t (markAsAttended t st) = markAsAttended t st"
    using gone by (rule markAsAttended_absent)
  have one: "length (historyEvents (markAsAttended t st)) = Suc (length (historyEvents st))"
    and attended: "estado (last (historyEvents (markAsAttended t st))) = ''asistido''"
    using found by simp_all
  from first found gone one attended again show ?thesis
    by (intro conjI) simp_all
qed

theorem markAsAttended_once_witness:
  "titulo beach_party \<in> titulo ` set (savedEvents (saveEvent beach_party (mounted 0))) \<and>
   savedEvents (markAsAttended ''Beach Party'' (saveEvent beach_party (mounted 0))) = [] \<and>
   historyEvents (markAsAttended ''Beach Party'' (saveEvent beach_party (mounted 0))) =
     [(blank_annotations beach_party)\<lparr>estado := ''asistido''\<rparr>] \<and>
   markAsAttended ''Beach Party''
       (markAsAttended ''Beach Party'' (saveEvent beach_party (mounted 0))) =
     markAsAttended ''Beach Party'' (saveEvent beach_party (mounted 0))"
  using markAsAttended_once [of "''Beach Party''" "saveEvent beach_party (mounted 0)"]
  by (simp add: mounted_def saveEvent_def setSavedEvents_def setHistoryEvents_def
      markAsAttended_def blank_annotations_def beach_party_def or_empty_def)

text \<open>
  C7. \<open>saveEvent\<close> looks for the title among the saved events only. For a title that
  the history holds and no saved event has, it appends one new saved event with blank
  annotations (\<open>notas\<close> empty, \<open>estado\<close> empty, no \<open>contactos\<close>, \<open>reminder\<close> null,
  \<open>category\<close> the candidate's \<open>tipo\<close> or empty) and the candidate's own properties, and
  leaves the history as it was.
\<close>

theorem saveEvent_ignores_history:
  "titulo ev \<in> titulo ` set (historyEvents st) \<Longrightarrow>
   titulo ev \<notin> titulo ` set (savedEvents st) \<Longrightarrow>
   (\<exists>new. savedEvents (saveEvent ev st) = savedEvents st @ [new] \<and>
      notas new = [] \<and> estado new = [] \<and> contactos new = [] \<and> reminder new = None \<and>
      category new = (case tipo ev of None \<Rightarrow> [] | Some c \<Rightarrow> c) \<and>
      titulo new = titulo ev \<and> fecha new = fecha ev \<and> ubicacion new = ubicacion ev \<and>
      tipo new = tipo ev \<and> descripcion new = descripcion ev \<and> fuente new = fuente ev) \<and>
   historyEvents (saveEvent ev st) = historyEvents st"
  by (simp add: saveEvent_def find_None_titulo setSavedEvents_def blank_annotations_def
      or_empty_def split: option.split)

lemma attended_beach_party_eq:
  "attended_beach_party =
     \<lparr>savedEvents = [],
      historyEvents = [(blank_annotations beach_party)\<lparr>estado := ''asistido''\<rparr>],
      savedRev = 2, alerts = [], timers = [], effectTime = 0\<rparr>"
  by (simp add: attended_beach_party_def mounted_def saveEvent_def setSavedEvents_def
      setHistoryEvents_def markAsAttended_def blank_annotations_def beach_party_def)

theorem saveEvent_ignores_history_witness:
  "titulo beach_party \<in> titulo ` set (historyEvents attended_beach_party) \<and>
   titulo beach_party \<notin> titulo ` set (savedEvents attended_beach_party) \<and>
   savedEvents (saveEvent beach_party attended_beach_party) = [blank_annotations beach_party] \<and>
   historyEvents (saveEvent beach_party attended_beach_party) =
     [(blank_annotations beach_party)\<lparr>estado := ''asistido''\<rparr>]"
  using saveEvent_ignores_history [of beach_party attended_beach_party]
  by (simp add: attended_beach_party_eq saveEvent_def setSavedEvents_def blank_annotations_def)

text \<open>
  C10. When two or more saved events share the title, \<open>markAsAttended\<close> removes all of
  them from the saved events and appends one history entry only, made from the first of
  them; the others are in neither array afterwards.
\<close>

theorem markAsAttended_duplicates:
  "filter (\<lambda>e. titulo e = t) (savedEvents st) = d # d' # ds \<Longrightarrow>
   savedEvents (markAsAttended t st) = filter (\<lambda>e. titulo e \<noteq> t) (savedEvents st) \<and>
   saved_count t (markAsAttended t st) = 0 \<and>
   historyEvents (markAsAttended t st) = historyEvents st @ [d\<lparr>estado := ''asistido''\<rparr>] \<and>
   length (historyEvents (markAsAttended t st)) = Suc (length (historyEvents st))"
proof -
  assume dups: "filter (\<lambda>e. titulo e = t) (savedEvents st) = d # d' # ds"
  then have "find (\<lambda>e. titulo e = t) (savedEvents st) = Some d"
    by (simp add: find_filter_titulo)
  from markAsAttended_found [OF this] show ?thesis
    by (simp add: saved_count_def)
qed

theorem markAsAttended_duplicates_witness:
  "filter (\<lambda>e. titulo e = ''Beach Party'') (savedEvents two_beach_parties) =
     [(blank_annotations beach_party)\<lparr>notas := ''first''\<rparr>,
      (blank_annotations beach_party)\<lparr>notas := ''second''\<rparr>] \<and>
   savedEvents (markAsAttended ''Beach Party'' two_beach_parties) = [] \<and>
   historyEvents (markAsAttended ''Beach Party'' two_beach_parties) =
     [(blank_annotations beach_party)\<lparr>notas := ''first'', estado := ''asistido''\<rparr>]"
  using markAsAttended_duplicates [of "''Beach Party''" two_beach_parties
      "(blank_annotations beach_party)\<lparr>notas := ''first''\<rparr>"
      "(blank_annotations beach_party)\<lparr>notas := ''second''\<rparr>" "[]"]
  by (simp add: two_beach_parties_def mounted_def blank_annotations_def beach_party_def)

section \<open>Properties of the date parser\<close>

lemma first_part_no_hyphen: "CHR ''-'' \<notin> set s \<Longrightarrow> first_part s = s"
proof (induction s)
  case Nil
  then show ?case by simp
next
  case (Cons c cs)
  have "set (dropWhile is_space (c # cs)) \<subseteq> set (c # cs)"
    by (rule set_dropWhileD [THEN subsetI]) 
  with Cons.prems have "\<not> separator_at (c # cs)"
    by (auto simp: separator_at_def split: list.splits)
  with Cons show ?case by simp
qed

lemma separator_at_spaces:
  "list_all is_space ws \<Longrightarrow> separator_at (ws @ CHR ''-'' # rest)"
  by (induction ws) (auto simp: separator_at_def is_space_def)

lemma first_part_range:
  "\<forall>c \<in> set a. \<not> is_space c \<and> c \<noteq> CHR ''-'' \<Longrightarrow> list_all is_space ws \<Longrightarrow>
   first_part (a @ ws @ CHR ''-'' # rest) = a"
proof (induction a)
  case Nil
  then show ?case
    using separator_at_spaces [of ws rest] by (cases "ws @ CHR ''-'' # rest") auto
next
  case (Cons c cs)
  then have "\<not> separator_at (c # cs @ ws @ CHR ''-'' # rest)"
    by (simp add: separator_at_def)
  with Cons show ?case by simp
qed

lemma split_on_none: "sep \<notin> set a \<Longrightarrow> split_on sep a = [a]"
  by (induction a) auto

lemma split_on_first: "sep \<notin> set a \<Longrightarrow> split_on sep (a @ sep # r) = a # split_on sep r"
  by (induction a) auto

lemma split_on_not_Nil: "split_on sep s \<noteq> []"
  by (induction s) (auto split: list.splits)

lemma digit_chars: "is_digit c \<Longrightarrow> \<not> is_space c \<and> c \<noteq> CHR ''-'' \<and> c \<noteq> CHR ''/''"
  by (auto simp: is_digit_def is_space_def)

lemma iso_date_valid:
  "valid_ymd yyyy mm dd \<Longrightarrow>
   iso_date (yyyy @ ''-'' @ mm @ ''-'' @ dd) = Some (utc_midnight yyyy mm dd)"
  by (simp add: iso_date_def valid_ymd_def nth_append)


lemma parseDate_fields:
  "s \<noteq> [] \<Longrightarrow> split_on (CHR ''/'') (first_part s) = day # month # year # others \<Longrightarrow>
   day \<noteq> [] \<Longrightarrow> month \<noteq> [] \<Longrightarrow> year \<noteq> [] \<Longrightarrow>
   parseDate impl s = Some (Date (Date_parse impl (year @ ''-'' @ month @ ''-'' @ day)))"
  by (simp add: parseDate_def element_def)

lemma parseDate_None_iff:
  "(parseDate impl s = None) =
   (s = [] \<or> \<not> (\<exists>day month year others. day \<noteq> [] \<and> month \<noteq> [] \<and> year \<noteq> [] \<and>
      split_on (CHR ''/'') (first_part s) = day # month # year # others))"
proof (cases "s = []")
  case True
  then show ?thesis by (simp add: parseDate_def)
next
  case False
  show ?thesis
  proof (cases "split_on (CHR ''/'') (first_part s)")
    case Nil
    then show ?thesis by (simp add: split_on_not_Nil)
  next
    case c1: (Cons day r1)
    show ?thesis
    proof (cases r1)
      case Nil
      with c1 False show ?thesis by (simp add: parseDate_def element_def)
    next
      case c2: (Cons month r2)
      show ?thesis
      proof (cases r2)
        case Nil
        with c1 c2 False show ?thesis by (simp add: parseDate_def element_def)
      next
        case (Cons year others)
        with c1 c2 False show ?thesis by (auto simp: parseDate_def element_def)
      qed
    qed
  qed
qed

lemma ddmmyyyy_fields:
  assumes "list_all is_digit dd" "list_all is_digit mm" "list_all is_digit yyyy"
  shows "split_on (CHR ''/'') (dd @ ''/'' @ mm @ ''/'' @ yyyy) = [dd, mm, yyyy]"
    and "\<forall>c \<in> set (dd @ ''/'' @ mm @ ''/'' @ yyyy). \<not> is_space c \<and> c \<noteq> CHR ''-''"
proof -
  from assms have d: "\<forall>c \<in> set dd \<union> set mm \<union> set yyyy. is_digit c"
    by (auto simp: list_all_iff)
  then have ns: "CHR ''/'' \<notin> set dd" "CHR ''/'' \<notin> set mm" "CHR ''/'' \<notin> set yyyy"
    using digit_chars by blast+
  show "split_on (CHR ''/'') (dd @ ''/'' @ mm @ ''/'' @ yyyy) = [dd, mm, yyyy]"
    using ns by (simp add: split_on_first split_on_none)
  show "\<forall>c \<in> set (dd @ ''/'' @ mm @ ''/'' @ yyyy). \<not> is_space c \<and> c \<noteq> CHR ''-''"
    using d digit_chars by (auto simp: is_space_def)
qed

lemma dd_mm_yyyy_split:
  assumes "dd_mm_yyyy t"
  shows "t = take 2 t @ ''/'' @ take 2 (drop 3 t) @ ''/'' @ drop 6 t"
proof -
  from assms have len: "length t = 10" and s2: "t ! 2 = CHR ''/''" and s5: "t ! 5 = CHR ''/''"
    by (simp_all add: dd_mm_yyyy_def)
  have a: "drop 2 t = CHR ''/'' # drop 3 t"
    using Cons_nth_drop_Suc [of 2 t] len s2 by simp
  have b: "drop 5 t = CHR ''/'' # drop 6 t"
    using Cons_nth_drop_Suc [of 5 t] len s5 by simp
  have c: "drop 3 t = take 2 (drop 3 t) @ drop 5 t"
    using append_take_drop_id [of 2 "drop 3 t"] by simp
  have "t = take 2 t @ drop 2 t" by simp
  then show ?thesis using a b c by simp
qed

lemma parseDate_date_or_range:
  assumes "date_or_range s"
  shows "parseDate impl s =
           Some (Date (Date_parse impl (drop 6 (take 10 s) @ ''-'' @ take 2 (drop 3 s) @ ''-'' @ take 2 s)))"
proof -
  define t where "t = take 10 s"
  define dd where "dd = take 2 t"
  define mm where "mm = take 2 (drop 3 t)"
  define yyyy where "yyyy = drop 6 t"
  from assms have dt: "dd_mm_yyyy t"
    by (auto simp: date_or_range_def t_def dd_mm_yyyy_def)
  then have digs: "list_all is_digit dd" "list_all is_digit mm" "list_all is_digit yyyy"
    and ne: "dd \<noteq> []" "mm \<noteq> []" "yyyy \<noteq> []" and len: "length t = 10"
    by (auto simp: dd_mm_yyyy_def dd_def mm_def yyyy_def)
  have t_eq: "t = dd @ ''/'' @ mm @ ''/'' @ yyyy"
    using dd_mm_yyyy_split [OF dt] by (simp add: dd_def mm_def yyyy_def)
  note f = ddmmyyyy_fields [OF digs]
  have fp: "first_part s = t"
  proof (cases "dd_mm_yyyy s")
    case True
    then have "s = t" by (simp add: t_def dd_mm_yyyy_def)
    moreover have "CHR ''-'' \<notin> set t" using f(2) t_eq by auto
    ultimately show ?thesis by (simp add: first_part_no_hyphen)
  next
    case False
    with assms obtain r where r: "dropWhile is_space (drop 10 s) = CHR ''-'' # r"
      by (auto simp: date_or_range_def split: list.splits)
    have "drop 10 s = takeWhile is_space (drop 10 s) @ CHR ''-'' # r"
      using takeWhile_dropWhile_id [of is_space "drop 10 s"] r by simp
    then have "s = t @ takeWhile is_space (drop 10 s) @ CHR ''-'' # r"
      using append_take_drop_id [of 10 s] by (simp add: t_def)
    moreover have "list_all is_space (takeWhile is_space (drop 10 s))"
      by (simp add: list_all_iff) (meson set_takeWhileD)
    moreover have "\<forall>c \<in> set t. \<not> is_space c \<and> c \<noteq> CHR ''-''"
      using f(2) t_eq by simp
    ultimately show ?thesis
      using first_part_range [of t "takeWhile is_space (drop 10 s)" r] by simp
  qed
  have "s \<noteq> []" using fp len by auto
  then have "parseDate impl s = Some (Date (Date_parse impl (yyyy @ ''-'' @ mm @ ''-'' @ dd)))"
    by (rule parseDate_fields [where others = "[]"]) (use f fp t_eq ne in simp_all)
  moreover have "take 2 (drop 3 s) = mm" "take 2 s = dd"
    by (simp_all add: mm_def dd_def t_def take_drop min_def)
  ultimately show ?thesis by (simp add: yyyy_def t_def)
qed

lemma Date_parse_valid:
  "valid_ymd yyyy mm dd \<Longrightarrow>
   Date_parse impl (yyyy @ ''-'' @ mm @ ''-'' @ dd) = Num (utc_midnight yyyy mm dd)"
  using iso_date_valid [of yyyy mm dd] by (simp add: Date_parse_def)

lemma separator_at_inside:
  assumes "b \<noteq> []" "CHR ''-'' \<notin> set b" "\<not> is_space (last b)"
  shows "\<not> separator_at (b @ r)"
proof -
  from assms(1,3) have ex: "\<exists>x \<in> set b. \<not> is_space x"
    using last_in_set by blast
  then obtain x where "x \<in> set b" "\<not> is_space x"
    by blast
  then have d: "dropWhile is_space (b @ r) = dropWhile is_space b @ r"
    by (rule dropWhile_append1)
  from ex have ne: "dropWhile is_space b \<noteq> []"
    by simp
  then have "hd (dropWhile is_space b) \<in> set b"
    using set_dropWhileD [of "hd (dropWhile is_space b)" is_space b] by simp
  with assms(2) have "hd (dropWhile is_space b) \<noteq> CHR ''-''"
    by auto
  with ne d show ?thesis
    by (cases "dropWhile is_space b") (simp_all add: separator_at_def)
qed

lemma first_part_prefix:
  "CHR ''-'' \<notin> set b \<Longrightarrow> b = [] \<or> \<not> is_space (last b) \<Longrightarrow> list_all is_space ws \<Longrightarrow>
   first_part (b @ ws @ CHR ''-'' # rest) = b"
proof (induction b)
  case Nil
  then show ?case
    using separator_at_spaces [of ws rest] by (cases "ws @ CHR ''-'' # rest") auto
next
  case (Cons c cs)
  then have "\<not> separator_at ((c # cs) @ ws @ CHR ''-'' # rest)"
    by (intro separator_at_inside) auto
  moreover from Cons.prems have "cs = [] \<or> \<not> is_space (last cs)"
    by (auto split: if_splits)
  ultimately show ?case
    using Cons by simp
qed

lemma first_part_text: "first_part s = text_before_hyphen s"
proof (cases "CHR ''-'' \<in> set s")
  case False
  then show ?thesis by (simp add: text_before_hyphen_def first_part_no_hyphen)
next
  case True
  define a where "a = takeWhile (\<lambda>c. c \<noteq> CHR ''-'') s"
  define b where "b = rev (dropWhile is_space (rev a))"
  define ws where "ws = rev (takeWhile is_space (rev a))"
  from True have "dropWhile (\<lambda>c. c \<noteq> CHR ''-'') s \<noteq> []"
    by auto
  then obtain rest where rest: "dropWhile (\<lambda>c. c \<noteq> CHR ''-'') s = CHR ''-'' # rest"
    using hd_dropWhile [of "\<lambda>c. c \<noteq> CHR ''-''" s]
    by (cases "dropWhile (\<lambda>c. c \<noteq> CHR ''-'') s") auto
  have "rev (takeWhile is_space (rev a) @ dropWhile is_space (rev a)) = rev (rev a)"
    by (simp only: takeWhile_dropWhile_id)
  then have "rev (dropWhile is_space (rev a)) @ rev (takeWhile is_space (rev a)) = a"
    by (simp only: rev_append rev_rev_ident)
  then have a_eq: "a = b @ ws"
    by (simp only: b_def ws_def)
  have s_eq: "s = b @ ws @ CHR ''-'' # rest"
    using takeWhile_dropWhile_id [of "\<lambda>c. c \<noteq> CHR ''-''" s] rest a_eq
    by (simp add: a_def)
  have "CHR ''-'' \<notin> set a"
    using set_takeWhileD [of "CHR ''-''" "\<lambda>c. c \<noteq> CHR ''-''" s] by (auto simp: a_def)
  then have nb: "CHR ''-'' \<notin> set b"
    using a_eq by simp
  have sp: "list_all is_space ws"
    using set_takeWhileD [of _ is_space "rev a"] by (auto simp: ws_def list_all_iff)
  have lb: "b = [] \<or> \<not> is_space (last b)"
  proof (cases "dropWhile is_space (rev a)")
    case Nil
    then show ?thesis by (simp add: b_def)
  next
    case (Cons x xs)
    then have "\<not> is_space x"
      using hd_dropWhile [of is_space "rev a"] by simp
    with Cons show ?thesis by (simp add: b_def)
  qed
  have "first_part s = b"
    using first_part_prefix [OF nb lb sp, of rest] s_eq by simp
  with True show ?thesis
    by (simp add: text_before_hyphen_def b_def a_def)
qed

lemma split_on_Cons:
  "split_on sep s = p # ps \<Longrightarrow>
   sep \<notin> set p \<and> (if ps = [] then s = p else \<exists>r. s = p @ sep # r \<and> split_on sep r = ps)"
proof (induction s arbitrary: p ps)
  case Nil
  then show ?case by simp
next
  case (Cons c cs)
  show ?case
  proof (cases "c = sep")
    case True
    with Cons.prems show ?thesis by (auto simp: split_on_not_Nil)
  next
    case False
    obtain q qs where q: "split_on sep cs = q # qs"
      using split_on_not_Nil [of sep cs] by (cases "split_on sep cs") auto
    with False Cons.prems have p: "p = c # q" "ps = qs"
      by auto
    from Cons.IH [OF q] False p show ?thesis
      by (auto split: if_splits)
  qed
qed

lemma three_fields:
  assumes "CHR ''/'' \<notin> set day" "CHR ''/'' \<notin> set month" "CHR ''/'' \<notin> set year"
    and "rest = [] \<or> hd rest = CHR ''/''"
  shows "\<exists>others. split_on (CHR ''/'') (day @ ''/'' @ month @ ''/'' @ year @ rest) =
           day # month # year # others"
proof (cases rest)
  case Nil
  with assms show ?thesis by (simp add: split_on_first split_on_none)
next
  case (Cons c r)
  with assms(4) have "rest = CHR ''/'' # r" by simp
  with assms(1-3) show ?thesis by (simp add: split_on_first)
qed

lemma fields_three:
  assumes "split_on (CHR ''/'') h = day # month # year # others"
  shows "CHR ''/'' \<notin> set day \<and> CHR ''/'' \<notin> set month \<and> CHR ''/'' \<notin> set year \<and>
     (\<exists>rest. (rest = [] \<or> hd rest = CHR ''/'') \<and> h = day @ ''/'' @ month @ ''/'' @ year @ rest)"
proof -
  from split_on_Cons [OF assms] obtain r1 where
    d: "CHR ''/'' \<notin> set day" and r1: "h = day @ CHR ''/'' # r1"
      "split_on (CHR ''/'') r1 = month # year # others"
    by auto
  from split_on_Cons [OF r1(2)] obtain r2 where
    m: "CHR ''/'' \<notin> set month" and r2: "r1 = month @ CHR ''/'' # r2"
      "split_on (CHR ''/'') r2 = year # others"
    by auto
  from split_on_Cons [OF r2(2)] have
    y: "CHR ''/'' \<notin> set year" and r3: "if others = [] then r2 = year
      else \<exists>r. r2 = year @ CHR ''/'' # r \<and> split_on (CHR ''/'') r = others"
    by auto
  from r3 obtain rest where "(rest = [] \<or> hd rest = CHR ''/'') \<and> r2 = year @ rest"
    by (cases "others = []") auto
  with d m y r1(1) r2(1) show ?thesis by auto
qed

lemma parseDate_text:
  assumes "s \<noteq> []" "day \<noteq> []" "month \<noteq> []" "year \<noteq> []"
    and "CHR ''/'' \<notin> set day" "CHR ''/'' \<notin> set month" "CHR ''/'' \<notin> set year"
    and "rest = [] \<or> hd rest = CHR ''/''"
    and "text_before_hyphen s = day @ ''/'' @ month @ ''/'' @ year @ rest"
  shows "parseDate impl s = Some (Date (Date_parse impl (year @ ''-'' @ month @ ''-'' @ day)))"
proof -
  from three_fields [OF assms(5-8)] assms(9) obtain others where
    "split_on (CHR ''/'') (first_part s) = day # month # year # others"
    by (auto simp: first_part_text)
  with assms(1-4) show ?thesis
    by (simp add: parseDate_fields)
qed

lemma parseDate_Some_iff:
  "(parseDate impl s \<noteq> None) =
   (s \<noteq> [] \<and>
    (\<exists>day month year rest. day \<noteq> [] \<and> month \<noteq> [] \<and> year \<noteq> [] \<and>
       CHR ''/'' \<notin> set day \<and> CHR ''/'' \<notin> set month \<and> CHR ''/'' \<notin> set year \<and>
       (rest = [] \<or> hd rest = CHR ''/'') \<and>
       text_before_hyphen s = day @ ''/'' @ month @ ''/'' @ year @ rest))"
proof
  assume "parseDate impl s \<noteq> None"
  then have ne: "s \<noteq> []" and "\<exists>day month year others. day \<noteq> [] \<and> month \<noteq> [] \<and> year \<noteq> [] \<and>
      split_on (CHR ''/'') (first_part s) = day # month # year # others"
    using parseDate_None_iff [of impl s] by auto
  then obtain day month year others where f: "day \<noteq> []" "month \<noteq> []" "year \<noteq> []"
    "split_on (CHR ''/'') (first_part s) = day # month # year # others"
    by blast
  from fields_three [OF f(4)] f(1-3) ne
  show "s \<noteq> [] \<and>
    (\<exists>day month year rest. day \<noteq> [] \<and> month \<noteq> [] \<and> year \<noteq> [] \<and>
       CHR ''/'' \<notin> set day \<and> CHR ''/'' \<notin> set month \<and> CHR ''/'' \<notin> set year \<and>
       (rest = [] \<or> hd rest = CHR ''/'') \<and>
       text_before_hyphen s = day @ ''/'' @ month @ ''/'' @ year @ rest)"
    unfolding first_part_text by blast
next
  assume "s \<noteq> [] \<and>
    (\<exists>day month year rest. day \<noteq> [] \<and> month \<noteq> [] \<and> year \<noteq> [] \<and>
       CHR ''/'' \<notin> set day \<and> CHR ''/'' \<notin> set month \<and> CHR ''/'' \<notin> set year \<and>
       (rest = [] \<or> hd rest = CHR ''/'') \<and>
       text_before_hyphen s = day @ ''/'' @ month @ ''/'' @ year @ rest)"
  then obtain day month year rest where "s \<noteq> []" "day \<noteq> []" "month \<noteq> []" "year \<noteq> []"
    "CHR ''/'' \<notin> set day" "CHR ''/'' \<notin> set month" "CHR ''/'' \<notin> set year"
    "rest = [] \<or> hd rest = CHR ''/''"
    "text_before_hyphen s = day @ ''/'' @ month @ ''/'' @ year @ rest"
    by blast
  from parseDate_text [OF this, of impl] show "parseDate impl s \<noteq> None"
    by simp
qed

text \<open>
  C2, as the code has it. On a text of the grammar (a date \<open>DD/MM/YYYY\<close>, or a range of
  two with a hyphen between optional white space) \<open>parseDate\<close> returns a \<open>Date\<close> built
  from the first date rewritten as \<open>YYYY-MM-DD\<close>; when that first date names a day of the
  calendar, the \<open>Date\<close> is that day's midnight in UTC. \<open>parseDate\<close> returns \<open>null\<close> exactly
  when the text is empty or its start (the text before the first hyphen without the
  white space that ends it; the whole text when it has no hyphen) does not begin with
  three non-empty components separated by slashes, the third one ending at the next
  slash or at the end of the start. On every other string it returns a \<open>Date\<close> built from
  \<open>year-month-day\<close> of those three components, whatever they contain, which is an
  invalid \<open>Date\<close> and not \<open>null\<close> when the engine does not recognise that text. As a
  function on strings it has a value everywhere: it does not raise.
\<close>

theorem parseDate_grammar:
  "(date_or_range s \<longrightarrow>
      parseDate impl s =
        Some (Date (Date_parse impl
          (drop 6 (take 10 s) @ ''-'' @ take 2 (drop 3 s) @ ''-'' @ take 2 s)))) \<and>
   (date_or_range s \<and> valid_ymd (drop 6 (take 10 s)) (take 2 (drop 3 s)) (take 2 s) \<longrightarrow>
      parseDate impl s =
        Some (Date (Num (utc_midnight (drop 6 (take 10 s)) (take 2 (drop 3 s)) (take 2 s))))) \<and>
   ((parseDate impl s = None) =
      (s = [] \<or>
       \<not> (\<exists>day month year rest. day \<noteq> [] \<and> month \<noteq> [] \<and> year \<noteq> [] \<and>
            CHR ''/'' \<notin> set day \<and> CHR ''/'' \<notin> set month \<and> CHR ''/'' \<notin> set year \<and>
            (rest = [] \<or> hd rest = CHR ''/'') \<and>
            text_before_hyphen s = day @ ''/'' @ month @ ''/'' @ year @ rest))) \<and>
   (\<forall>day month year rest.
      s \<noteq> [] \<and> day \<noteq> [] \<and> month \<noteq> [] \<and> year \<noteq> [] \<and>
      CHR ''/'' \<notin> set day \<and> CHR ''/'' \<notin> set month \<and> CHR ''/'' \<notin> set year \<and>
      (rest = [] \<or> hd rest = CHR ''/'') \<and>
      text_before_hyphen s = day @ ''/'' @ month @ ''/'' @ year @ rest \<longrightarrow>
      parseDate impl s = Some (Date (Date_parse impl (year @ ''-'' @ month @ ''-'' @ day))))"
proof (intro conjI impI allI)
  assume "date_or_range s"
  then show "parseDate impl s =
      Some (Date (Date_parse impl
        (drop 6 (take 10 s) @ ''-'' @ take 2 (drop 3 s) @ ''-'' @ take 2 s)))"
    by (rule parseDate_date_or_range)
next
  assume h: "date_or_range s \<and> valid_ymd (drop 6 (take 10 s)) (take 2 (drop 3 s)) (take 2 s)"
  then show "parseDate impl s =
      Some (Date (Num (utc_midnight (drop 6 (take 10 s)) (take 2 (drop 3 s)) (take 2 s))))"
    using parseDate_date_or_range [of s impl] Date_parse_valid [of _ _ _ impl] by simp
next
  show "(parseDate impl s = None) =
      (s = [] \<or>
       \<not> (\<exists>day month year rest. day \<noteq> [] \<and> month \<noteq> [] \<and> year \<noteq> [] \<and>
            CHR ''/'' \<notin> set day \<and> CHR ''/'' \<notin> set month \<and> CHR ''/'' \<notin> set year \<and>
            (rest = [] \<or> hd rest = CHR ''/'') \<and>
            text_before_hyphen s = day @ ''/'' @ month @ ''/'' @ year @ rest))"
    using parseDate_Some_iff [of impl s] by blast
next
  fix day month year rest
  assume "s \<noteq> [] \<and> day \<noteq> [] \<and> month \<noteq> [] \<and> year \<noteq> [] \<and>
      CHR ''/'' \<notin> set day \<and> CHR ''/'' \<notin> set month \<and> CHR ''/'' \<notin> set year \<and>
      (rest = [] \<or> hd rest = CHR ''/'') \<and>
      text_before_hyphen s = day @ ''/'' @ month @ ''/'' @ year @ rest"
  then show "parseDate impl s = Some (Date (Date_parse impl (year @ ''-'' @ month @ ''-'' @ day)))"
    using parseDate_text [of s day month year rest impl] by blast
qed

theorem parseDate_grammar_witness:
  "date_or_range ''12/07/2025 - 15/07/2025'' \<and>
   valid_ymd ''2025'' ''07'' ''12'' \<and>
   parseDate strict_engine ''12/07/2025 - 15/07/2025'' = Some (Date (Num 1752278400000)) \<and>
   text_before_hyphen ''a/b/c'' = ''a'' @ ''/'' @ ''b'' @ ''/'' @ ''c'' @ [] \<and>
   parseDate strict_engine ''a/b/c'' = Some (Date (Date_parse strict_engine ''c-b-a'')) \<and>
   text_before_hyphen ''12/07/ - x'' = ''12/07/'' \<and>
   parseDate strict_engine ''12/07/ - x'' = None"
proof -
  have h: "date_or_range ''12/07/2025 - 15/07/2025'' \<and>
      valid_ymd (drop 6 (take 10 ''12/07/2025 - 15/07/2025''))
        (take 2 (drop 3 ''12/07/2025 - 15/07/2025'')) (take 2 ''12/07/2025 - 15/07/2025'')"
    by code_simp
  have v: "utc_midnight (drop 6 (take 10 ''12/07/2025 - 15/07/2025''))
        (take 2 (drop 3 ''12/07/2025 - 15/07/2025'')) (take 2 ''12/07/2025 - 15/07/2025'') =
      1752278400000"
    by code_simp
  have y: "valid_ymd ''2025'' ''07'' ''12''"
    by code_simp
  have f: "text_before_hyphen ''a/b/c'' = ''a'' @ ''/'' @ ''b'' @ ''/'' @ ''c'' @ []"
    by code_simp
  have n: "text_before_hyphen ''12/07/ - x'' = ''12/07/'' \<and>
      parseDate strict_engine ''12/07/ - x'' = None"
    by code_simp
  from parseDate_grammar [of "''12/07/2025 - 15/07/2025''" strict_engine] h
  have p: "parseDate strict_engine ''12/07/2025 - 15/07/2025'' =
      Some (Date (Num (utc_midnight (drop 6 (take 10 ''12/07/2025 - 15/07/2025''))
        (take 2 (drop 3 ''12/07/2025 - 15/07/2025'')) (take 2 ''12/07/2025 - 15/07/2025''))))"
    by blast
  have c: "''a/b/c'' \<noteq> [] \<and> ''a'' \<noteq> [] \<and> ''b'' \<noteq> [] \<and> ''c'' \<noteq> [] \<and>
      CHR ''/'' \<notin> set ''a'' \<and> CHR ''/'' \<notin> set ''b'' \<and> CHR ''/'' \<notin> set ''c'' \<and>
      (([]::string) = [] \<or> hd ([]::string) = CHR ''/'')"
    by simp
  from parseDate_grammar [of "''a/b/c''" strict_engine] c f
  have "parseDate strict_engine ''a/b/c'' =
      Some (Date (Date_parse strict_engine (''c'' @ ''-'' @ ''b'' @ ''-'' @ ''a'')))"
    by blast
  then have q: "parseDate strict_engine ''a/b/c'' = Some (Date (Date_parse strict_engine ''c-b-a''))"
    by simp
  show ?thesis
    using h y f q n p [unfolded v] by blast
qed

text \<open>
  The claim as stated fails on strings outside the grammar: with non-numeric components
  the result is an invalid \<open>Date\<close>, not \<open>null\<close>, and with a fourth component the result
  is a valid \<open>Date\<close>.
\<close>

theorem parseDate_other_strings_counterexample:
  "\<not> date_or_range ''a/b/c'' \<and>
   parseDate strict_engine ''a/b/c'' = Some (Date NaN) \<and>
   \<not> date_or_range ''12/07/2025/x'' \<and>
   parseDate strict_engine ''12/07/2025/x'' = Some (Date (Num 1752278400000))"
  by code_simp

section \<open>Properties of the reminder effect\<close>












section \<open>Properties of the import\<close>

text \<open>
  C8. Importing a snapshot appends its saved entries to the saved events and its history
  entries to the history, in their order and without comparing titles: each array grows
  by the number of entries of the snapshot and keeps its former entries, unchanged, as a
  prefix. Nothing else of the state changes.
\<close>

theorem importAgenda_appends:
  "savedEvents (importAgenda (Some (Parsed (JObject sv hs))) st) = savedEvents st @ entries sv \<and>
   historyEvents (importAgenda (Some (Parsed (JObject sv hs))) st) = historyEvents st @ entries hs \<and>
   length (savedEvents (importAgenda (Some (Parsed (JObject sv hs))) st)) =
     length (savedEvents st) + length (entries sv) \<and>
   length (historyEvents (importAgenda (Some (Parsed (JObject sv hs))) st)) =
     length (historyEvents st) + length (entries hs) \<and>
   take (length (savedEvents st)) (savedEvents (importAgenda (Some (Parsed (JObject sv hs))) st)) =
     savedEvents st \<and>
   take (length (historyEvents st)) (historyEvents (importAgenda (Some (Parsed (JObject sv hs))) st)) =
     historyEvents st \<and>
   alerts (importAgenda (Some (Parsed (JObject sv hs))) st) = alerts st"
  by (simp add: importAgenda_def onload_def entries_def setSavedEvents_def setHistoryEvents_def
      split: option.split)

theorem importAgenda_appends_witness:
  "savedEvents (importAgenda (Some (Parsed exported_snapshot)) (saveEvent beach_party (mounted 0))) =
     [blank_annotations beach_party,
      (blank_annotations beach_party)\<lparr>notas := ''bring sunscreen''\<rparr>] \<and>
   historyEvents (importAgenda (Some (Parsed exported_snapshot)) (saveEvent beach_party (mounted 0))) =
     [(blank_annotations fish_fry)\<lparr>estado := ''asistido''\<rparr>]"
  using importAgenda_appends [of
      "Some [(blank_annotations beach_party)\<lparr>notas := ''bring sunscreen''\<rparr>]"
      "Some [(blank_annotations fish_fry)\<lparr>estado := ''asistido''\<rparr>]"
      "saveEvent beach_party (mounted 0)"]
  by (simp add: exported_snapshot_def entries_def saveEvent_def mounted_def setSavedEvents_def)

text \<open>
  C9. When the text of the file is not JSON, the import shows one alert, the message of
  the \<^verbatim>\<open>catch\<close> block, and changes nothing else: saved events, history and timers are as
  before, and the reminder effect does not run. The handler returns a state: nothing is
  thrown past it.
\<close>

theorem importAgenda_malformed:
  "importAgenda (Some Malformed) st = st\<lparr>alerts := alerts st @ [import_error_message]\<rparr> \<and>
   savedEvents (importAgenda (Some Malformed) st) = savedEvents st \<and>
   historyEvents (importAgenda (Some Malformed) st) = historyEvents st \<and>
   length (alerts (importAgenda (Some Malformed) st)) = Suc (length (alerts st)) \<and>
   step impl st (now, Import (Some Malformed)) = st\<lparr>alerts := alerts st @ [import_error_message]\<rparr>"
  by (simp add: importAgenda_def onload_def alert_def step_def)

theorem importAgenda_malformed_witness:
  "importAgenda (Some Malformed) attended_beach_party =
     attended_beach_party\<lparr>alerts := [import_error_message]\<rparr> \<and>
   historyEvents (importAgenda (Some Malformed) attended_beach_party) =
     [(blank_annotations beach_party)\<lparr>estado := ''asistido''\<rparr>]"
  using importAgenda_malformed [of attended_beach_party strict_engine 0]
  by (simp add: attended_beach_party_eq)

section \<open>Titles of saved events and of the history\<close>

lemma with_field_titulo: "\<forall>v. fv \<noteq> Set_titulo v \<Longrightarrow> titulo (with_field fv e) = titulo e"
  by (cases fv) auto

lemma updateSavedEvent_titles:
  "\<forall>v. fv \<noteq> Set_titulo v \<Longrightarrow>
   map titulo (savedEvents (updateSavedEvent t fv st)) = map titulo (savedEvents st)"
  by (simp add: updateSavedEvent_def setSavedEvents_def with_field_titulo)

lemma markAsAttended_disjoint:
  assumes "disjoint_titles st"
  shows "disjoint_titles (markAsAttended t st)"
proof (cases "find (\<lambda>e. titulo e = t) (savedEvents st)")
  case None
  with assms show ?thesis by (simp add: markAsAttended_def)
next
  case (Some ev)
  from find_Some_titulo [OF Some] markAsAttended_found [OF Some] assms
  show ?thesis by (auto simp: disjoint_titles_def)
qed

text \<open>
  C4, as the code has it. From a state in which no title is both saved and in the
  history, removing, marking as attended and updating a property other than the title
  lead to such a state again; saving does exactly when the history does not hold the
  candidate's title; and importing a snapshot does exactly when no title of the saved
  events, old and imported, is a title of the history, old and imported.
\<close>

theorem disjoint_titles_preserved:
  "disjoint_titles st \<Longrightarrow>
   disjoint_titles (removeEvent t st) \<and>
   disjoint_titles (markAsAttended t st) \<and>
   ((\<forall>v. fv \<noteq> Set_titulo v) \<longrightarrow> disjoint_titles (updateSavedEvent t fv st)) \<and>
   disjoint_titles (saveEvent ev st) = (titulo ev \<notin> titulo ` set (historyEvents st)) \<and>
   disjoint_titles (importAgenda (Some (Parsed (JObject sv hs))) st) =
     (set (map titulo (savedEvents st @ entries sv)) \<inter>
      set (map titulo (historyEvents st @ entries hs)) = {})"
proof (intro conjI impI)
  assume d: "disjoint_titles st"
  show "disjoint_titles (removeEvent t st)"
    using d by (auto simp: disjoint_titles_def removeEvent_def setSavedEvents_def)
  show "disjoint_titles (markAsAttended t st)"
    using d by (rule markAsAttended_disjoint)
  show "disjoint_titles (saveEvent ev st) = (titulo ev \<notin> titulo ` set (historyEvents st))"
    using d
    by (auto simp: disjoint_titles_def saveEvent_def find_None_titulo setSavedEvents_def
        blank_annotations_def)
  show "disjoint_titles (importAgenda (Some (Parsed (JObject sv hs))) st) =
     (set (map titulo (savedEvents st @ entries sv)) \<inter>
      set (map titulo (historyEvents st @ entries hs)) = {})"
    by (simp add: disjoint_titles_def importAgenda_def onload_def entries_def setSavedEvents_def
        setHistoryEvents_def image_Un split: option.split)
next
  assume "disjoint_titles st" and "\<forall>v. fv \<noteq> Set_titulo v"
  then show "disjoint_titles (updateSavedEvent t fv st)"
    using updateSavedEvent_titles [of fv t st]
    by (simp add: disjoint_titles_def updateSavedEvent_def setSavedEvents_def)
qed

theorem disjoint_titles_preserved_witness:
  "disjoint_titles attended_beach_party \<and>
   disjoint_titles (removeEvent ''Fish Fry'' attended_beach_party) \<and>
   disjoint_titles (markAsAttended ''Fish Fry'' attended_beach_party) \<and>
   disjoint_titles (updateSavedEvent ''Fish Fry'' (Set_notas ''bring cash'') attended_beach_party) \<and>
   disjoint_titles (saveEvent fish_fry attended_beach_party) \<and>
   \<not> disjoint_titles (saveEvent beach_party attended_beach_party)"
proof -
  have d: "disjoint_titles attended_beach_party"
    by (simp add: disjoint_titles_def attended_beach_party_eq)
  have n: "\<forall>v. Set_notas ''bring cash'' \<noteq> Set_titulo v"
    by simp
  have f: "titulo fish_fry \<notin> titulo ` set (historyEvents attended_beach_party)"
    by (simp add: attended_beach_party_eq fish_fry_def blank_annotations_def beach_party_def)
  have b: "titulo beach_party \<in> titulo ` set (historyEvents attended_beach_party)"
    by (simp add: attended_beach_party_eq blank_annotations_def)
  show ?thesis
    using disjoint_titles_preserved [OF d, of "''Fish Fry''" "Set_notas ''bring cash''" fish_fry]
      disjoint_titles_preserved [OF d, of "''Fish Fry''" "Set_notas ''bring cash''" beach_party]
      d n f b
    by blast
qed

text \<open>
  The claim as stated fails: saving, marking as attended and saving again puts the
  title both among the saved events and in the history.
\<close>

theorem disjoint_titles_counterexample:
  "disjoint_titles (mounted 0) \<and>
   \<not> disjoint_titles
       (run strict_engine (mounted 0)
          [(1000, Save beach_party), (2000, Promote ''Beach Party''), (3000, Save beach_party)])"
  by (simp add: disjoint_titles_def run_def step_def mounted_def saveEvent_def markAsAttended_def
      setSavedEvents_def setHistoryEvents_def blank_annotations_def beach_party_def
      reminderEffect_def schedule_def)

section \<open>Properties of the calendar\<close>

lemma push_keys:
  "map fst (map (\<lambda>(k, es). if k = d then (k, es @ [e]) else (k, es)) g) = map fst g"
  by (induction g) auto

lemma add_to_group_keys:
  "add_to_group g e = Inr g' \<Longrightarrow>
   map fst g' = map fst g @ first_seen (map fst g) [first_part (fecha e)]"
  using push_keys [of "first_part (fecha e)" e g]
  by (auto simp: add_to_group_def Let_def split: if_splits)

lemma group_from_keys:
  "group_from g es = Inr g' \<Longrightarrow>
   map fst g' = map fst g @ first_seen (map fst g) (map (\<lambda>e. first_part (fecha e)) es)"
proof (induction es arbitrary: g)
  case Nil
  then show ?case by simp
next
  case (Cons e es)
  then obtain g1 where g1: "add_to_group g e = Inr g1" and rest: "group_from g1 es = Inr g'"
    by (auto split: sum.splits)
  from add_to_group_keys [OF g1] Cons.IH [OF rest] show ?case
    by (auto split: if_splits)
qed

lemma add_to_group_returns:
  "first_part (fecha e) \<notin> set Object_prototype_keys \<Longrightarrow> \<exists>g'. add_to_group g e = Inr g'"
  by (simp add: add_to_group_def Let_def)

lemma group_from_returns:
  "list_all (\<lambda>e. first_part (fecha e) \<notin> set Object_prototype_keys) es \<Longrightarrow>
   \<exists>g'. group_from g es = Inr g'"
proof (induction es arbitrary: g)
  case Nil
  then show ?case by simp
next
  case (Cons e es)
  then obtain g1 where "add_to_group g e = Inr g1"
    using add_to_group_returns [of e g] by auto
  with Cons show ?case by simp
qed

lemma first_seen_distinct:
  "distinct seen \<Longrightarrow> distinct (seen @ first_seen seen xs)"
proof (induction xs arbitrary: seen)
  case Nil
  then show ?case by simp
next
  case (Cons x xs)
  show ?case
  proof (cases "x \<in> set seen")
    case True
    with Cons show ?thesis by simp
  next
    case False
    with Cons.prems have "distinct (seen @ [x])" by simp
    from Cons.IH [OF this] False show ?thesis by simp
  qed
qed

lemma first_seen_set: "set (first_seen seen xs) = set xs - set seen"
proof (induction xs arbitrary: seen)
  case Nil
  then show ?case by simp
next
  case (Cons x xs)
  show ?case
  proof (cases "x \<in> set seen")
    case True
    with Cons.IH [of seen] show ?thesis by auto
  next
    case False
    with Cons.IH [of "seen @ [x]"] show ?thesis by auto
  qed
qed

lemma sort_value_epoch:
  "sort_value impl k \<noteq> NaN \<Longrightarrow> sort_value impl k = Num (epoch_ms impl k)"
proof (cases "parseDate impl k")
  case None
  then show ?thesis by (simp add: sort_value_def epoch_ms_def)
next
  case (Some d)
  assume "sort_value impl k \<noteq> NaN"
  with Some show ?thesis
    by (cases "getTime d") (simp_all add: sort_value_def epoch_ms_def)
qed

lemma sort_value_NaN:
  "(sort_value impl k = NaN) = (parseDate impl k = Some (Date NaN))"
proof (cases "parseDate impl k")
  case None
  then show ?thesis by (simp add: sort_value_def)
next
  case (Some d)
  then show ?thesis by (cases d) (simp add: sort_value_def)
qed

lemma insert_before_insort:
  "sort_value impl x \<noteq> NaN \<Longrightarrow> list_all (\<lambda>k. sort_value impl k \<noteq> NaN) ys \<Longrightarrow>
   insert_before (compare_dates impl) x ys = insort_key (epoch_ms impl) x ys"
proof (induction ys)
  case Nil
  then show ?case by simp
next
  case (Cons y ys)
  then have "sort_value impl x = Num (epoch_ms impl x)" "sort_value impl y = Num (epoch_ms impl y)"
    by (simp_all add: sort_value_epoch)
  with Cons show ?case
    by (auto simp: compare_dates_def)
qed

lemma stable_sort_sort_key:
  "list_all (\<lambda>k. sort_value impl k \<noteq> NaN) ks \<Longrightarrow>
   stable_sort (compare_dates impl) ks = sort_key (epoch_ms impl) ks"
proof (induction ks)
  case Nil
  then show ?case by (simp add: stable_sort_def)
next
  case (Cons k ks)
  then have ih: "stable_sort (compare_dates impl) ks = sort_key (epoch_ms impl) ks"
    and k: "sort_value impl k \<noteq> NaN"
    and all: "list_all (\<lambda>k. sort_value impl k \<noteq> NaN) (sort_key (epoch_ms impl) ks)"
    by (simp_all add: list_all_iff)
  have "stable_sort (compare_dates impl) (k # ks) =
      insert_before (compare_dates impl) k (stable_sort (compare_dates impl) ks)"
    by (simp add: stable_sort_def)
  also have "\<dots> = insort_key (epoch_ms impl) k (sort_key (epoch_ms impl) ks)"
    using insert_before_insort [OF k all] ih by simp
  finally show ?case by simp
qed

lemma Object_keys_set: "set (Object_keys g) = set (map fst g)"
  by (auto simp: Object_keys_def Let_def)

lemma Object_keys_distinct: "distinct (map fst g) \<Longrightarrow> distinct (Object_keys g)"
  by (auto simp: Object_keys_def Let_def)

lemma filter_Object_keys:
  "filter P (Object_keys g) =
     sort_key digits_value (filter (\<lambda>k. is_array_index k \<and> P k) (map fst g)) @
     filter (\<lambda>k. \<not> is_array_index k \<and> P k) (map fst g)"
  by (simp add: Object_keys_def Let_def filter_sort)

lemma before_later_dates:
  assumes "sorted (map f ds)" "i < length ds" "j < length ds" "f (ds ! i) < f (ds ! j)"
  shows "i < j"
proof (rule ccontr)
  assume "\<not> i < j"
  then have "j \<le> i" by simp
  with assms(1,2) have "map f ds ! j \<le> map f ds ! i"
    by (simp add: sorted_iff_nth_mono)
  with assms(2,3,4) show False by simp
qed

lemma unparsable_epoch: "parseDate impl k = None \<Longrightarrow> epoch_ms impl k = 0"
  by (simp add: epoch_ms_def)

lemma parseDate_ddmmyyyy:
  assumes "valid_ymd yyyy mm dd"
  shows "parseDate impl (dd @ ''/'' @ mm @ ''/'' @ yyyy) =
           Some (Date (Num (utc_midnight yyyy mm dd)))"
proof -
  from assms have digs: "list_all is_digit dd" "list_all is_digit mm" "list_all is_digit yyyy"
    and ne: "dd \<noteq> []" "mm \<noteq> []" "yyyy \<noteq> []"
    by (auto simp: valid_ymd_def)
  note f = ddmmyyyy_fields [OF digs]
  have "CHR ''-'' \<notin> set (dd @ ''/'' @ mm @ ''/'' @ yyyy)"
    using f(2) by blast
  then have fp: "first_part (dd @ ''/'' @ mm @ ''/'' @ yyyy) = dd @ ''/'' @ mm @ ''/'' @ yyyy"
    by (rule first_part_no_hyphen)
  have "parseDate impl (dd @ ''/'' @ mm @ ''/'' @ yyyy) =
          Some (Date (Date_parse impl (yyyy @ ''-'' @ mm @ ''-'' @ dd)))"
    by (rule parseDate_fields [where others = "[]"]) (use f fp ne in simp_all)
  then show ?thesis
    using Date_parse_valid [OF assms, of impl] by simp
qed

lemma epoch_ms_ddmmyyyy:
  "valid_ymd yyyy mm dd \<Longrightarrow> epoch_ms impl (dd @ ''/'' @ mm @ ''/'' @ yyyy) = utc_midnight yyyy mm dd"
  using parseDate_ddmmyyyy [of yyyy mm dd impl] by (simp add: epoch_ms_def)

lemma calendar_order:
  assumes proto: "list_all (\<lambda>e. text_before_hyphen (fecha e) \<notin> set Object_prototype_keys) saved"
    and valid: "list_all (\<lambda>e. parseDate impl (text_before_hyphen (fecha e)) \<noteq> Some (Date NaN)) saved"
  shows "\<exists>grouped. groupEventsByDate saved = Inr grouped \<and>
      map fst grouped = date_keys saved \<and>
      distinct (map fst grouped) \<and>
      calendar_dates impl engine saved = Inr (sort_key (epoch_ms impl) (Object_keys grouped))"
proof -
  from proto obtain grouped where g: "groupEventsByDate saved = Inr grouped"
    using group_from_returns [of saved "[]"] by (auto simp: groupEventsByDate_def first_part_text)
  have k: "map fst grouped = first_seen [] (map (\<lambda>e. text_before_hyphen (fecha e)) saved)"
    using group_from_keys [of "[]" saved grouped] g
    by (simp add: groupEventsByDate_def first_part_text)
  have d: "distinct (map fst grouped)"
    using first_seen_distinct [of "[]" "map (\<lambda>e. text_before_hyphen (fecha e)) saved"] k by simp
  have "set (Object_keys grouped) = set (map (\<lambda>e. text_before_hyphen (fecha e)) saved)"
    using k first_seen_set [of "[]" "map (\<lambda>e. text_before_hyphen (fecha e)) saved"]
    by (simp add: Object_keys_set)
  with valid have "list_all (\<lambda>k. sort_value impl k \<noteq> NaN) (Object_keys grouped)"
    by (auto simp: list_all_iff sort_value_NaN)
  then have "calendar_dates impl engine saved = Inr (sort_key (epoch_ms impl) (Object_keys grouped))"
    using g by (simp add: calendar_dates_def sort_dates_def stable_sort_sort_key)
  with g k d show ?thesis by (auto simp: date_keys_def)
qed

lemma filter_unparsable_class:
  "filter (\<lambda>k. parseDate impl k = None) xs =
     filter (\<lambda>k. parseDate impl k = None) (filter (\<lambda>k. epoch_ms impl k = 0) xs)"
  by (induction xs) (auto simp: unparsable_epoch)

lemma filter_unparsable:
  "filter (\<lambda>k. parseDate impl k = None) (sort_key (epoch_ms impl) ks) =
     filter (\<lambda>k. parseDate impl k = None) ks"
proof -
  have "filter (\<lambda>k. parseDate impl k = None) (sort_key (epoch_ms impl) ks) =
      filter (\<lambda>k. parseDate impl k = None)
        (filter (\<lambda>k. epoch_ms impl k = 0) (sort_key (epoch_ms impl) ks))"
    by (rule filter_unparsable_class)
  also have "\<dots> = filter (\<lambda>k. parseDate impl k = None) (filter (\<lambda>k. epoch_ms impl k = 0) ks)"
    by (simp only: sort_key_stable)
  also have "\<dots> = filter (\<lambda>k. parseDate impl k = None) ks"
    by (rule filter_unparsable_class [symmetric])
  finally show ?thesis .
qed

text \<open>
  C3, as the code has it. When no key is a property name of \<^verbatim>\<open>Object.prototype\<close> (for
  which grouping throws) and no key parses to an invalid date, the calendar lists every
  group key once, by non-decreasing value, where a key that parses has the time value of
  its date and a key that does not parse has the value \<open>0\<close> of the epoch: so a key that
  does not parse comes before every key dated after 1 January 1970 and after every key
  dated before, and of two keys \<open>DD/MM/YYYY\<close> that name days of the calendar the earlier
  day comes first. The keys of one value, and so the keys that do not parse among
  themselves, are listed with the array indices first, in ascending numeric order, and
  then the other keys in encounter order.
\<close>

theorem calendar_dates_order:
  "list_all (\<lambda>e. text_before_hyphen (fecha e) \<notin> set Object_prototype_keys) saved \<Longrightarrow>
   list_all (\<lambda>e. parseDate impl (text_before_hyphen (fecha e)) \<noteq> Some (Date NaN)) saved \<Longrightarrow>
   \<exists>dates. calendar_dates impl engine saved = Inr dates \<and>
      set dates = set (date_keys saved) \<and>
      distinct dates \<and>
      sorted (map (epoch_ms impl) dates) \<and>
      (\<forall>i j. i < length dates \<and> j < length dates \<and>
         parseDate impl (dates ! i) = None \<and> 0 < epoch_ms impl (dates ! j) \<longrightarrow> i < j) \<and>
      (\<forall>i j. i < length dates \<and> j < length dates \<and>
         epoch_ms impl (dates ! i) < 0 \<and> parseDate impl (dates ! j) = None \<longrightarrow> i < j) \<and>
      (\<forall>i j dd mm yyyy dd' mm' yyyy'. i < length dates \<and> j < length dates \<and>
         dates ! i = dd @ ''/'' @ mm @ ''/'' @ yyyy \<and> valid_ymd yyyy mm dd \<and>
         dates ! j = dd' @ ''/'' @ mm' @ ''/'' @ yyyy' \<and> valid_ymd yyyy' mm' dd' \<and>
         utc_midnight yyyy mm dd < utc_midnight yyyy' mm' dd' \<longrightarrow> i < j) \<and>
      (\<forall>v. filter (\<lambda>k. epoch_ms impl k = v) dates =
         sort_key digits_value
           (filter (\<lambda>k. is_array_index k \<and> epoch_ms impl k = v) (date_keys saved)) @
         filter (\<lambda>k. \<not> is_array_index k \<and> epoch_ms impl k = v) (date_keys saved)) \<and>
      filter (\<lambda>k. parseDate impl k = None) dates =
        sort_key digits_value
          (filter (\<lambda>k. is_array_index k \<and> parseDate impl k = None) (date_keys saved)) @
        filter (\<lambda>k. \<not> is_array_index k \<and> parseDate impl k = None) (date_keys saved)"
proof -
  assume proto: "list_all (\<lambda>e. text_before_hyphen (fecha e) \<notin> set Object_prototype_keys) saved"
    and valid: "list_all (\<lambda>e. parseDate impl (text_before_hyphen (fecha e)) \<noteq> Some (Date NaN)) saved"
  from calendar_order [OF proto valid, of engine] obtain grouped where
    keys: "map fst grouped = date_keys saved" and
    dist: "distinct (map fst grouped)" and
    cal: "calendar_dates impl engine saved = Inr (sort_key (epoch_ms impl) (Object_keys grouped))"
    by blast
  define dates where "dates = sort_key (epoch_ms impl) (Object_keys grouped)"
  have srt: "sorted (map (epoch_ms impl) dates)"
    by (simp add: dates_def)
  have members: "set dates = set (date_keys saved)"
    using keys by (simp add: dates_def Object_keys_set)
  have once: "distinct dates"
    using dist by (simp add: dates_def Object_keys_distinct)
  have late: "i < j"
    if "i < length dates \<and> j < length dates \<and>
        parseDate impl (dates ! i) = None \<and> 0 < epoch_ms impl (dates ! j)" for i j
    using that before_later_dates [OF srt, of i j] unparsable_epoch [of impl "dates ! i"]
    by simp
  have early: "i < j"
    if "i < length dates \<and> j < length dates \<and>
        epoch_ms impl (dates ! i) < 0 \<and> parseDate impl (dates ! j) = None" for i j
    using that before_later_dates [OF srt, of i j] unparsable_epoch [of impl "dates ! j"]
    by simp
  have days: "i < j"
    if "i < length dates \<and> j < length dates \<and>
        dates ! i = dd @ ''/'' @ mm @ ''/'' @ yyyy \<and> valid_ymd yyyy mm dd \<and>
        dates ! j = dd' @ ''/'' @ mm' @ ''/'' @ yyyy' \<and> valid_ymd yyyy' mm' dd' \<and>
        utc_midnight yyyy mm dd < utc_midnight yyyy' mm' dd'" for i j dd mm yyyy dd' mm' yyyy'
    using that before_later_dates [OF srt, of i j]
      epoch_ms_ddmmyyyy [of yyyy mm dd impl] epoch_ms_ddmmyyyy [of yyyy' mm' dd' impl]
    by simp
  have ties: "filter (\<lambda>k. epoch_ms impl k = v) dates =
      sort_key digits_value
        (filter (\<lambda>k. is_array_index k \<and> epoch_ms impl k = v) (date_keys saved)) @
      filter (\<lambda>k. \<not> is_array_index k \<and> epoch_ms impl k = v) (date_keys saved)" for v
    using filter_Object_keys [of "\<lambda>k. epoch_ms impl k = v" grouped] keys
    by (simp add: dates_def sort_key_stable)
  have unp: "filter (\<lambda>k. parseDate impl k = None) dates =
      sort_key digits_value
        (filter (\<lambda>k. is_array_index k \<and> parseDate impl k = None) (date_keys saved)) @
      filter (\<lambda>k. \<not> is_array_index k \<and> parseDate impl k = None) (date_keys saved)"
    using filter_Object_keys [of "\<lambda>k. parseDate impl k = None" grouped] keys
    by (simp add: dates_def filter_unparsable)
  from cal members once srt late early days ties unp show ?thesis
    unfolding dates_def by blast
qed

theorem calendar_dates_order_witness:
  "list_all (\<lambda>e. text_before_hyphen (fecha e) \<notin> set Object_prototype_keys) calendar_example \<and>
   list_all (\<lambda>e. parseDate strict_engine (text_before_hyphen (fecha e)) \<noteq> Some (Date NaN))
     calendar_example \<and>
   date_keys calendar_example =
     [''2026'', ''12/07/2025'', ''Every Thursday'', ''2025'', ''20/07/1969''] \<and>
   calendar_dates strict_engine unsorted calendar_example =
     Inr [''20/07/1969'', ''2025'', ''2026'', ''Every Thursday'', ''12/07/2025''] \<and>
   sorted (map (epoch_ms strict_engine)
     [''20/07/1969'', ''2025'', ''2026'', ''Every Thursday'', ''12/07/2025'']) \<and>
   filter (\<lambda>k. parseDate strict_engine k = None)
       [''20/07/1969'', ''2025'', ''2026'', ''Every Thursday'', ''12/07/2025''] =
     [''2025'', ''2026'', ''Every Thursday'']"
proof -
  have proto: "list_all (\<lambda>e. text_before_hyphen (fecha e) \<notin> set Object_prototype_keys)
      calendar_example"
    by code_simp
  have valid: "list_all (\<lambda>e. parseDate strict_engine (text_before_hyphen (fecha e)) \<noteq> Some (Date NaN))
      calendar_example"
    by code_simp
  have keys: "date_keys calendar_example =
      [''2026'', ''12/07/2025'', ''Every Thursday'', ''2025'', ''20/07/1969'']"
    by code_simp
  have cal: "calendar_dates strict_engine unsorted calendar_example =
      Inr [''20/07/1969'', ''2025'', ''2026'', ''Every Thursday'', ''12/07/2025'']"
    by code_simp
  have unp: "filter (\<lambda>k. parseDate strict_engine k = None)
        [''20/07/1969'', ''2025'', ''2026'', ''Every Thursday'', ''12/07/2025''] =
      [''2025'', ''2026'', ''Every Thursday'']"
    by code_simp
  from calendar_dates_order [OF proto valid, of unsorted]
  obtain dates where dates:
    "calendar_dates strict_engine unsorted calendar_example = Inr dates"
    "sorted (map (epoch_ms strict_engine) dates)"
    by blast
  from dates(1) cal
  have "dates = [''20/07/1969'', ''2025'', ''2026'', ''Every Thursday'', ''12/07/2025'']"
    by simp
  with dates(2) have srt: "sorted (map (epoch_ms strict_engine)
      [''20/07/1969'', ''2025'', ''2026'', ''Every Thursday'', ''12/07/2025''])"
    by simp
  show ?thesis
    by (intro conjI proto valid keys cal srt unp)
qed

text \<open>
  The claim as stated fails: a key that does not parse is listed before a key dated in
  2025, and two keys that do not parse and are array indices are listed in ascending
  order, not in encounter order.
\<close>

theorem calendar_dates_counterexample:
  "calendar_dates strict_engine unsorted [blank_annotations beach_party, blank_annotations fish_fry] =
     Inr [''Every Thursday'', ''12/07/2025''] \<and>
   parseDate strict_engine ''Every Thursday'' = None \<and>
   parseDate strict_engine ''12/07/2025'' = Some (Date (Num 1752278400000)) \<and>
   calendar_dates strict_engine unsorted
       [(blank_annotations fish_fry)\<lparr>fecha := ''2026''\<rparr>,
        (blank_annotations beach_party)\<lparr>fecha := ''2025''\<rparr>] =
     Inr [''2025'', ''2026''] \<and>
   parseDate strict_engine ''2025'' = None \<and>
   parseDate strict_engine ''2026'' = None"
  by code_simp

end
